theory Spec2Isabelle
  imports Main
begin

section \<open>Python strings\<close>

text \<open>
  A Python \<open>str\<close> is a sequence of Unicode code points and \<open>len\<close> counts code points.
  A code point is modelled as a natural number and a string as a list of them, so
  \<^const>\<open>length\<close> is Python's \<open>len\<close> and \<^const>\<open>take\<close>/\<^const>\<open>drop\<close> are its slices.
  \<open>str\<close> turns an ASCII literal into such a string.
\<close>

type_synonym codepoint = nat
type_synonym pystr = "codepoint list"

definition str :: "string \<Rightarrow> pystr" where
  "str s = map of_char s"

abbreviation NL :: codepoint where "NL \<equiv> 10"
abbreviation SP :: codepoint where "SP \<equiv> 32"

text \<open>
  Whitespace as CPython's \<open>Py_UNICODE_ISSPACE\<close> has it. Both \<open>str.strip()\<close> and the
  class \<open>\s\<close> of a \<open>str\<close> pattern use this table.
\<close>

definition is_space :: "codepoint \<Rightarrow> bool" where
  "is_space c \<longleftrightarrow>
     (9 \<le> c \<and> c \<le> 13) \<or> (28 \<le> c \<and> c \<le> 32) \<or> c = 133 \<or> c = 160 \<or> c = 5760 \<or>
     (8192 \<le> c \<and> c \<le> 8202) \<or> c = 8232 \<or> c = 8233 \<or> c = 8239 \<or> c = 8287 \<or> c = 12288"

text \<open>\<open>s.strip()\<close>: whitespace removed from both ends.\<close>

definition strip :: "pystr \<Rightarrow> pystr" where
  "strip s = rev (dropWhile is_space (rev (dropWhile is_space s)))"

text \<open>\<open>s.split(sep)\<close> for a one-character separator; the empty string gives \<open>['']\<close>.\<close>

fun split :: "codepoint \<Rightarrow> pystr \<Rightarrow> pystr list" where
  "split sep [] = [[]]"
| "split sep (c # cs) =
     (if c = sep then [] # split sep cs
      else (case split sep cs of [] \<Rightarrow> [[c]] | p # ps \<Rightarrow> (c # p) # ps))"

text \<open>\<open>s.replace(old, new)\<close> for one-character \<open>old\<close> and \<open>new\<close>.\<close>

definition replace :: "codepoint \<Rightarrow> codepoint \<Rightarrow> pystr \<Rightarrow> pystr" where
  "replace old new s = map (\<lambda>c. if c = old then new else c) s"

section \<open>Regular-expression substitution\<close>

text \<open>
  \<open>re.sub(pattern, repl, text)\<close> scans \<open>text\<close> from the left. At each position the
  pattern is tried; a match is replaced by \<open>repl\<close> and the scan resumes behind it,
  otherwise the character is copied and the scan moves one position on. A pattern is
  given by its matcher: the length of the match that starts at the head of the remaining
  text, if there is one. Both patterns of the program match at least two characters, so
  the treatment of empty matches is not part of the model (a matcher answering \<open>0\<close> is
  read as no match).
\<close>

fun re_sub :: "(pystr \<Rightarrow> nat option) \<Rightarrow> pystr \<Rightarrow> pystr \<Rightarrow> pystr" where
  "re_sub m repl [] = []"
| "re_sub m repl (c # cs) =
     (case m (c # cs) of
        Some (Suc k) \<Rightarrow> repl @ re_sub m repl (drop k cs)
      | _ \<Rightarrow> c # re_sub m repl cs)"

text \<open>The class \<open>[-=_*]\<close>: dash, equals sign, underscore, asterisk.\<close>

definition is_decor :: "codepoint \<Rightarrow> bool" where
  "is_decor c \<longleftrightarrow> c = 45 \<or> c = 61 \<or> c = 95 \<or> c = 42"

text \<open>
  The pattern \<open>[-=_*]{3,}\<close>: the greedy repetition takes every class character in
  front of it and needs three of them.
\<close>

definition match_decor :: "pystr \<Rightarrow> nat option" where
  "match_decor s = (let n = length (takeWhile is_decor s) in if 3 \<le> n then Some n else None)"

text \<open>
  The pattern \<open>\n\s*\n\<close>: after the first newline the greedy \<open>\s*\<close> takes all the
  whitespace in front of it (newlines are whitespace), then gives characters back one at
  a time until a newline follows. \<open>ws_then_nl rest k\<close> tries \<open>\s*\<close> at \<open>k\<close> characters,
  then at fewer.
\<close>

fun ws_then_nl :: "pystr \<Rightarrow> nat \<Rightarrow> nat option" where
  "ws_then_nl rest 0 = (if take 1 rest = [NL] then Some 2 else None)"
| "ws_then_nl rest (Suc k) =
     (if take 1 (drop (Suc k) rest) = [NL] then Some (Suc k + 2) else ws_then_nl rest k)"

definition match_newlines :: "pystr \<Rightarrow> nat option" where
  "match_newlines s =
     (case s of
        [] \<Rightarrow> None
      | c # rest \<Rightarrow> if c = NL then ws_then_nl rest (length (takeWhile is_space rest)) else None)"

section \<open>The text normalizer\<close>

definition clean_and_prepare_text :: "pystr \<Rightarrow> pystr" where
  "clean_and_prepare_text text =
     (let text = re_sub match_decor [] text;
          text = re_sub match_newlines [NL] text;
          text = replace NL SP text
      in text)"

section \<open>Exceptions\<close>

datatype exn =
    ValueError        \<comment> \<open>\<open>range()\<close> with step zero\<close>
  | HTTPError int     \<comment> \<open>\<open>requests.exceptions.HTTPError\<close> with \<open>e.response.status_code\<close>\<close>
  | OtherException    \<comment> \<open>any exception that is not an \<open>HTTPError\<close>\<close>

section \<open>The chunk splitter\<close>

text \<open>
  \<open>[p.strip() for p in text.split('\n') if p.strip()]\<close>; a string is true when it is
  not empty.
\<close>

definition paragraphs :: "pystr \<Rightarrow> pystr list" where
  "paragraphs text = map strip (filter (\<lambda>p. strip p \<noteq> []) (split NL text))"

text \<open>
  \<open>for i in range(i0, len(para), M): chunks.append(para[i:i + M])\<close> for a positive
  step \<open>M\<close>: the chunks appended from index \<open>i0\<close> on.
\<close>

function range_slices :: "nat \<Rightarrow> nat \<Rightarrow> pystr \<Rightarrow> pystr list" where
  "range_slices i M para =
     (if 0 < M \<and> i < length para then take M (drop i para) # range_slices (i + M) M para
      else [])"
  by pat_completeness auto
termination
  by (relation "measure (\<lambda>(i, M, para). length para - i)") auto

text \<open>
  The body of the loop over the paragraphs: the chunks it appends for one paragraph.
  \<open>max_chunk_size\<close> is a Python \<open>int\<close>: with \<open>0\<close> the call of \<open>range\<close> raises
  \<open>ValueError\<close>, with a negative step the range is empty.
\<close>

definition para_chunks :: "int \<Rightarrow> pystr \<Rightarrow> exn + pystr list" where
  "para_chunks max_chunk_size para =
     (if int (length para) \<le> max_chunk_size then Inr [para]
      else if max_chunk_size = 0 then Inl ValueError
      else if max_chunk_size < 0 then Inr []
      else Inr (range_slices 0 (nat max_chunk_size) para))"

fun chunk_loop :: "int \<Rightarrow> pystr list \<Rightarrow> pystr list \<Rightarrow> exn + pystr list" where
  "chunk_loop max_chunk_size [] chunks = Inr chunks"
| "chunk_loop max_chunk_size (para # rest) chunks =
     (case para_chunks max_chunk_size para of
        Inl e \<Rightarrow> Inl e
      | Inr new \<Rightarrow> chunk_loop max_chunk_size rest (chunks @ new))"

definition get_text_chunks :: "pystr \<Rightarrow> int \<Rightarrow> exn + pystr list" where
  "get_text_chunks text max_chunk_size = chunk_loop max_chunk_size (paragraphs text) []"

definition default_max_chunk_size :: int where
  "default_max_chunk_size = 3000"

section \<open>The speech synthesizer\<close>

text \<open>
  The voice service is outside the program. One attempt is the body of the \<open>try\<close>:
  \<open>gTTS(...)\<close>, \<open>write_to_fp\<close> and \<open>AudioSegment.from_mp3\<close>; it ends with a decoded
  segment or with an exception. The service is a function from the number of attempts
  made so far in the run, the text and the accent to that outcome; the state of a run is
  that number. What the program does to the outside (requests, warnings, sleeps,
  progress) is returned as a trace.
\<close>

datatype 'a response = Audio 'a | Raises exn

type_synonym 'a tts = "nat \<Rightarrow> pystr \<Rightarrow> pystr \<Rightarrow> 'a response"

datatype event =
    Synthesize pystr pystr        \<comment> \<open>one attempt: text and tld\<close>
  | RateLimitWarning int nat nat  \<comment> \<open>delay, attempt + 1, retries\<close>
  | Sleep int                     \<comment> \<open>\<open>time.sleep(delay)\<close>\<close>
  | SkipWarning nat               \<comment> \<open>\<open>len(chunk)\<close>\<close>
  | ProgressStart
  | Progress nat nat              \<comment> \<open>\<open>i + 1\<close> and \<open>len(text_chunks)\<close>\<close>

fun emit :: "event list \<Rightarrow> 'r \<times> nat \<times> event list \<Rightarrow> 'r \<times> nat \<times> event list" where
  "emit es (r, k, tr) = (r, k, es @ tr)"

text \<open>
  \<open>for attempt in range(retries)\<close> with the \<open>try\<close> in its body; falling out of the
  loop returns \<open>None\<close>. The result is the returned value or the raised exception, the
  number of attempts made in the run, and the trace.
\<close>

fun retry_loop ::
  "'a tts \<Rightarrow> pystr \<Rightarrow> pystr \<Rightarrow> nat \<Rightarrow> nat list \<Rightarrow> int \<Rightarrow> nat \<Rightarrow> (exn + 'a option) \<times> nat \<times> event list"
where
  "retry_loop tts chunk tld retries [] delay k = (Inr None, k, [])"
| "retry_loop tts chunk tld retries (attempt # rest) delay k =
     (case tts k chunk tld of
        Audio a \<Rightarrow> (Inr (Some a), Suc k, [Synthesize chunk tld])
      | Raises (HTTPError status_code) \<Rightarrow>
          if status_code = 429
          then emit [Synthesize chunk tld, RateLimitWarning delay (attempt + 1) retries, Sleep delay]
                 (retry_loop tts chunk tld retries rest (delay * 2) (Suc k))
          else (Inl (HTTPError status_code), Suc k, [Synthesize chunk tld])
      | Raises e \<Rightarrow> (Inl e, Suc k, [Synthesize chunk tld]))"

text \<open>The \<open>session\<close> argument is not used by the body and is left out.\<close>

definition convert_chunk_to_audio ::
  "'a tts \<Rightarrow> pystr \<Rightarrow> pystr \<Rightarrow> nat \<Rightarrow> (exn + 'a option) \<times> nat \<times> event list"
where
  "convert_chunk_to_audio tts chunk tld k = retry_loop tts chunk tld 3 [0..<3] 5 k"

text \<open>
  The library between the program and the service. The only HTTP request of the
  \<open>try\<close> body is made inside \<open>gTTS.write_to_fp\<close>. In every version of gTTS that has
  the \<open>tld\<close> argument, it catches the \<open>requests.exceptions.HTTPError\<close> of a bad
  status itself and raises \<open>gTTSError\<close> in its place, which is not an \<open>HTTPError\<close>. So
  an answer of the service with an error status, 429 included, reaches the program as
  an exception of the third kind.
\<close>

datatype 'a http_reply = Ok 'a | Status int

definition gtts :: "'a http_reply \<Rightarrow> 'a response" where
  "gtts reply = (case reply of Ok a \<Rightarrow> Audio a | Status status_code \<Rightarrow> Raises OtherException)"

section \<open>The audio assembler\<close>

text \<open>
  \<open>pydub.AudioSegment\<close> is a library type: the empty segment, \<open>+\<close>, \<open>len\<close> (the
  duration in milliseconds) and \<open>export\<close> are parameters. The class defines \<open>__len__\<close>
  and no \<open>__bool__\<close>, so a segment is true exactly when its \<open>len\<close> is not zero.
\<close>

record 'a audio_lib =
  seg_empty :: 'a
  seg_add :: "'a \<Rightarrow> 'a \<Rightarrow> 'a"
  seg_len :: "'a \<Rightarrow> nat"
  export_mp3 :: "'a \<Rightarrow> nat list"

text \<open>\<open>for i, chunk in enumerate(text_chunks)\<close>, with \<open>n = len(text_chunks)\<close>.\<close>

fun audio_loop ::
  "'a audio_lib \<Rightarrow> 'a tts \<Rightarrow> pystr \<Rightarrow> nat \<Rightarrow> (nat \<times> pystr) list \<Rightarrow> 'a \<Rightarrow> nat \<Rightarrow> (exn + 'a) \<times> nat \<times> event list"
where
  "audio_loop lib tts tld n [] combined_audio k = (Inr combined_audio, k, [])"
| "audio_loop lib tts tld n ((i, chunk) # rest) combined_audio k =
     (case convert_chunk_to_audio tts chunk tld k of
        (Inl e, k1, tr) \<Rightarrow> (Inl e, k1, tr)
      | (Inr None, k1, tr) \<Rightarrow>
          emit (tr @ [SkipWarning (length chunk)]) (audio_loop lib tts tld n rest combined_audio k1)
      | (Inr (Some chunk_audio), k1, tr) \<Rightarrow>
          if seg_len lib chunk_audio = 0
          then emit (tr @ [SkipWarning (length chunk)])
                 (audio_loop lib tts tld n rest combined_audio k1)
          else emit (tr @ [Progress (i + 1) n])
                 (audio_loop lib tts tld n rest (seg_add lib combined_audio chunk_audio) k1))"

definition convert_text_to_mp3_chunked ::
  "'a audio_lib \<Rightarrow> 'a tts \<Rightarrow> pystr \<Rightarrow> pystr \<Rightarrow> nat \<Rightarrow> (exn + nat list option) \<times> nat \<times> event list"
where
  "convert_text_to_mp3_chunked lib tts text tld k =
     (if strip text = [] then (Inr None, k, [])
      else
        (case get_text_chunks text default_max_chunk_size of
           Inl e \<Rightarrow> (Inl e, k, [])
         | Inr text_chunks \<Rightarrow>
             (case audio_loop lib tts tld (length text_chunks) (enumerate 0 text_chunks)
                     (seg_empty lib) k of
                (Inl e, k1, tr) \<Rightarrow> (Inl e, k1, ProgressStart # tr)
              | (Inr combined_audio, k1, tr) \<Rightarrow>
                  (Inr (Some (export_mp3 lib combined_audio)), k1, ProgressStart # tr))))"

section \<open>Notions of the specification\<close>

text \<open>
  The character class that the specification names for the first step of the normalizer:
  dash, equals sign, asterisk.
\<close>

definition is_spec_decor :: "codepoint \<Rightarrow> bool" where
  "is_spec_decor c \<longleftrightarrow> c = 45 \<or> c = 61 \<or> c = 42"

text \<open>
  The substitution in the specification's words: every maximal run of at least \<open>n\<close>
  consecutive characters of the class \<open>P\<close> is replaced by the empty string, and every
  other character is left as it is. The recursion is always at the start of a maximal
  run or at a character outside the class.
\<close>

function drop_runs :: "(codepoint \<Rightarrow> bool) \<Rightarrow> nat \<Rightarrow> pystr \<Rightarrow> pystr" where
  "drop_runs P n [] = []"
| "drop_runs P n (c # cs) =
     (if P c
      then (if n \<le> length (takeWhile P (c # cs)) then [] else takeWhile P (c # cs))
           @ drop_runs P n (dropWhile P cs)
      else c # drop_runs P n cs)"
  by pat_completeness auto
termination
  by (relation "measure (\<lambda>(P, n, s). length s)")
     (auto simp: length_dropWhile_le less_Suc_eq_le)

text \<open>
  Every run of consecutive characters of the class \<open>P\<close> in the string is shorter than
  \<open>n\<close>, where the run at the start of the string counts with \<open>k\<close> characters more (the
  characters of the class just in front of the string).
\<close>

fun runs_below :: "(codepoint \<Rightarrow> bool) \<Rightarrow> nat \<Rightarrow> nat \<Rightarrow> pystr \<Rightarrow> bool" where
  "runs_below P n k [] = True"
| "runs_below P n k (c # cs) =
     (if P c then Suc k < n \<and> runs_below P n (Suc k) cs else runs_below P n 0 cs)"

text \<open>\<open>sep.join(parts)\<close>: the separator reinserted between the parts.\<close>

fun join :: "codepoint \<Rightarrow> pystr list \<Rightarrow> pystr" where
  "join sep [] = []"
| "join sep [p] = p"
| "join sep (p # q # ps) = p @ sep # join sep (q # ps)"

text \<open>
  The chunks of one paragraph for a positive maximum size, as a natural number: what
  \<^const>\<open>para_chunks\<close> returns then.
\<close>

definition chunks_of :: "nat \<Rightarrow> pystr \<Rightarrow> pystr list" where
  "chunks_of M para = (if length para \<le> M then [para] else range_slices 0 M para)"

text \<open>
  The results of \<open>_convert_chunk_to_audio\<close> on the chunks in order, each call starting
  where the one before ended; the list ends with the first call that raises.
\<close>

fun chunk_results :: "'a tts \<Rightarrow> pystr \<Rightarrow> pystr list \<Rightarrow> nat \<Rightarrow> (exn + 'a option) list" where
  "chunk_results tts tld [] k = []"
| "chunk_results tts tld (chunk # rest) k =
     (case convert_chunk_to_audio tts chunk tld k of
        (Inl e, k1, tr) \<Rightarrow> [Inl e]
      | (Inr r, k1, tr) \<Rightarrow> Inr r # chunk_results tts tld rest k1)"

text \<open>The segments among such results, in order.\<close>

fun segments :: "(exn + 'a option) list \<Rightarrow> 'a list" where
  "segments [] = []"
| "segments (Inr (Some a) # rs) = a # segments rs"
| "segments (r # rs) = segments rs"

section \<open>Stub services for the examples\<close>

text \<open>The service answers every request with HTTP 429, behind gTTS.\<close>

definition service_always_429 :: "nat tts" where
  "service_always_429 k text tld = gtts (Status 429)"

text \<open>The service answers the first two requests with HTTP 429 and then succeeds, behind gTTS.\<close>

definition service_twice_429 :: "nat tts" where
  "service_twice_429 k text tld = gtts (if k < 2 then Status 429 else Ok 7)"

definition once_429_then_500 :: "nat tts" where
  "once_429_then_500 k text tld = (if k < 1 then Raises (HTTPError 429) else Raises (HTTPError 500))"

definition second_call_500 :: "nat list tts" where
  "second_call_500 k text tld = (if k = 1 then Raises (HTTPError 500) else Audio (replicate 24 k))"

definition second_chunk_rate_limited :: "nat list tts" where
  "second_chunk_rate_limited k text tld =
     (if 1 \<le> k \<and> k \<le> 3 then Raises (HTTPError 429) else Audio (replicate 24 k))"

definition one_sample :: "nat list tts" where
  "one_sample k text tld = Audio [7]"

text \<open>
  A segment as its list of samples at 24 samples per millisecond: \<open>+\<close> appends, \<open>len\<close>
  is the duration in whole milliseconds.
\<close>

definition pcm_lib :: "nat list audio_lib" where
  "pcm_lib = \<lparr>seg_empty = [], seg_add = (@), seg_len = (\<lambda>a. length a div 24),
              export_mp3 = (\<lambda>a. a)\<rparr>"

section \<open>Auxiliary facts\<close>

lemma split_no_sep: "sep \<notin> set s \<Longrightarrow> split sep s = [s]"
  by (induction s) auto

lemma replace_removes: "old \<noteq> new \<Longrightarrow> old \<notin> set (replace old new s)"
  by (auto simp: replace_def)

lemma paragraphs_single_line:
  "NL \<notin> set s \<Longrightarrow> paragraphs s = (if strip s = [] then [] else [strip s])"
  by (simp add: paragraphs_def split_no_sep)

lemma upt_3: "[0..<3] = [0, 1, 2]"
  by (simp add: upt_rec)

lemma range_slices_unfold:
  "range_slices i M para =
     (if 0 < M \<and> i < length para then take M (drop i para) # range_slices (i + M) M para
      else [])"
  by (rule range_slices.simps)

declare range_slices.simps [simp del]

lemma range_slices_length_le: "c \<in> set (range_slices i M para) \<Longrightarrow> length c \<le> M"
  by (induction i M para rule: range_slices.induct; subst (asm) range_slices_unfold)
     (auto split: if_splits)

lemma range_slices_nonempty: "c \<in> set (range_slices i M para) \<Longrightarrow> c \<noteq> []"
  by (induction i M para rule: range_slices.induct; subst (asm) range_slices_unfold)
     (auto split: if_splits)

lemma range_slices_Nil_iff: "range_slices i M para = [] \<longleftrightarrow> \<not> (0 < M \<and> i < length para)"
  by (subst range_slices_unfold) simp

lemma range_slices_concat: "0 < M \<Longrightarrow> concat (range_slices i M para) = drop i para"
proof (induction i M para rule: range_slices.induct)
  case (1 i M para)
  show ?case
  proof (cases "i < length para")
    case True
    have "concat (range_slices i M para) = take M (drop i para) @ drop (i + M) para"
      using True 1 by (subst range_slices_unfold) simp
    also have "\<dots> = drop i para"
      by (metis add.commute append_take_drop_id drop_drop)
    finally show ?thesis .
  next
    case False
    then show ?thesis by (subst range_slices_unfold) simp
  qed
qed

lemma range_slices_full: "c \<in> set (butlast (range_slices i M para)) \<Longrightarrow> length c = M"
proof (induction i M para rule: range_slices.induct)
  case (1 i M para)
  show ?case
  proof (cases "0 < M \<and> i < length para")
    case True
    then have eq: "range_slices i M para = take M (drop i para) # range_slices (i + M) M para"
      by (subst range_slices_unfold) simp
    show ?thesis
    proof (cases "range_slices (i + M) M para = []")
      case True
      then show ?thesis using 1(2) eq by simp
    next
      case False
      then have "i + M < length para"
        by (simp add: range_slices_Nil_iff)
      then have "length (take M (drop i para)) = M" by simp
      then show ?thesis using 1 True False eq by auto
    qed
  next
    case False
    then have "range_slices i M para = []" by (simp add: range_slices_Nil_iff)
    then show ?thesis using 1(2) by simp
  qed
qed

lemma para_chunks_pos: "1 \<le> M \<Longrightarrow> para_chunks M para = Inr (chunks_of (nat M) para)"
  by (auto simp: para_chunks_def chunks_of_def)

lemma chunk_loop_pos:
  "1 \<le> M \<Longrightarrow> chunk_loop M ps chunks = Inr (chunks @ concat (map (chunks_of (nat M)) ps))"
  by (induction ps arbitrary: chunks) (simp_all add: para_chunks_pos)

lemma get_text_chunks_pos:
  "1 \<le> M \<Longrightarrow> get_text_chunks text M = Inr (concat (map (chunks_of (nat M)) (paragraphs text)))"
  by (simp add: get_text_chunks_def chunk_loop_pos)

lemma chunks_of_length_le: "c \<in> set (chunks_of M para) \<Longrightarrow> length c \<le> M"
  by (auto simp: chunks_of_def range_slices_length_le split: if_splits)

lemma chunks_of_concat: "0 < M \<Longrightarrow> concat (chunks_of M para) = para"
  by (simp add: chunks_of_def range_slices_concat)

lemma chunks_of_nonempty: "0 < M \<Longrightarrow> para \<noteq> [] \<Longrightarrow> chunks_of M para \<noteq> []"
  by (auto simp: chunks_of_def range_slices_Nil_iff)

lemma paragraphs_nonempty: "p \<in> set (paragraphs text) \<Longrightarrow> p \<noteq> []"
  by (auto simp: paragraphs_def)

lemma join_Cons_head: "join sep ((a # p) # ps) = a # join sep (p # ps)"
  by (cases ps) simp_all

lemma join_split: "join sep (split sep s) = s"
  by (induction s) (auto split: list.splits simp: join_Cons_head)

lemma map_concat_chunks_of: "0 < M \<Longrightarrow> map concat (map (chunks_of M) ps) = ps"
  by (induction ps) (simp_all add: chunks_of_concat)

lemma paragraphs_of_trimmed_lines:
  assumes "\<forall>p\<in>set (split NL text). p \<noteq> [] \<and> strip p = p"
  shows "paragraphs text = split NL text"
proof -
  have "filter (\<lambda>p. strip p \<noteq> []) (split NL text) = split NL text"
    using assms by (auto intro!: filter_True)
  moreover have "map strip (split NL text) = split NL text"
    using assms by (auto intro!: map_idI)
  ultimately show ?thesis by (simp add: paragraphs_def)
qed

lemma length_str: "length (str s) = length s"
  by (simp add: str_def)

lemma paragraphs_example: "paragraphs (str ''ab\<newline>cdefg'') = [str ''ab'', str ''cdefg'']"
  by (simp add: paragraphs_def strip_def is_space_def str_def)

lemma range_slices_example: "range_slices 0 3 (str ''cdefg'') = [str ''cde'', str ''fg'']"
  by code_simp

lemma paragraphs_leading_space: "paragraphs (str '' a'') = [str ''a'']"
  by (simp add: paragraphs_def strip_def is_space_def str_def)


lemma re_sub_short_run:
  assumes "\<And>t. length (takeWhile P t) < n \<Longrightarrow> m t = None"
  shows "length (takeWhile P s) < n \<Longrightarrow>
           re_sub m repl s = takeWhile P s @ re_sub m repl (dropWhile P s)"
proof (induction s)
  case Nil
  then show ?case by simp
next
  case (Cons c cs)
  show ?case
  proof (cases "P c")
    case True
    with Cons.prems have "length (takeWhile P cs) < n" by simp
    moreover have "m (c # cs) = None" using Cons.prems by (rule assms)
    ultimately show ?thesis using True Cons.IH by simp
  next
    case False
    then show ?thesis by simp
  qed
qed

lemma re_sub_runs:
  "0 < n \<Longrightarrow>
     re_sub (\<lambda>t. let k = length (takeWhile P t) in if n \<le> k then Some k else None) [] s
       = drop_runs P n s"
proof (induction P n s rule: drop_runs.induct)
  case (1 P n)
  show ?case by simp
next
  case (2 P n c cs)
  let ?m = "\<lambda>t. let k = length (takeWhile P t) in if n \<le> k then Some k else None"
  have short: "\<And>t. length (takeWhile P t) < n \<Longrightarrow> ?m t = None"
    by (simp add: Let_def)
  show ?case
  proof (cases "P c")
    case False
    then have "?m (c # cs) = None" using "2.prems" by (simp add: Let_def)
    then show ?thesis using False "2.IH"(2) "2.prems" by simp
  next
    case True
    note Pc = True
    show ?thesis
    proof (cases "n \<le> length (takeWhile P (c # cs))")
      case True
      then have "?m (c # cs) = Some (Suc (length (takeWhile P cs)))"
        using Pc by (simp add: Let_def)
      then have "re_sub ?m [] (c # cs) = re_sub ?m [] (drop (length (takeWhile P cs)) cs)"
        by simp
      also have "\<dots> = re_sub ?m [] (dropWhile P cs)"
        by (simp add: dropWhile_eq_drop)
      also have "\<dots> = drop_runs P n (dropWhile P cs)"
        using "2.IH"(1) Pc "2.prems" by simp
      finally show ?thesis using True Pc by simp
    next
      case False
      then have "length (takeWhile P (c # cs)) < n" by simp
      then have "re_sub ?m [] (c # cs)
                   = takeWhile P (c # cs) @ re_sub ?m [] (dropWhile P (c # cs))"
        using short by (rule re_sub_short_run [rotated])
      also have "re_sub ?m [] (dropWhile P (c # cs)) = drop_runs P n (dropWhile P cs)"
        using "2.IH"(1) Pc "2.prems" by simp
      finally show ?thesis using False Pc by simp
    qed
  qed
qed

lemma match_decor_eq:
  "match_decor = (\<lambda>t. let k = length (takeWhile is_decor t) in if 3 \<le> k then Some k else None)"
  by (simp add: fun_eq_iff match_decor_def)

lemma sub_decor_runs: "re_sub match_decor [] s = drop_runs is_decor 3 s"
  unfolding match_decor_eq by (rule re_sub_runs) simp

lemma runs_below_mono: "runs_below P n k s \<Longrightarrow> j \<le> k \<Longrightarrow> runs_below P n j s"
  by (induction s arbitrary: k j) (auto split: if_splits)

lemma runs_below_tl: "runs_below P n k (c # cs) \<Longrightarrow> runs_below P n 0 cs"
  by (auto split: if_splits intro: runs_below_mono)

lemma runs_below_drop: "runs_below P n k s \<Longrightarrow> runs_below P n 0 (drop j s)"
proof (induction j arbitrary: s k)
  case 0
  then show ?case by (auto intro: runs_below_mono)
next
  case (Suc j)
  show ?case
  proof (cases s)
    case Nil
    then show ?thesis by simp
  next
    case (Cons c cs)
    have "runs_below P n 0 cs" using Suc.prems unfolding Cons by (rule runs_below_tl)
    then show ?thesis using Cons Suc.IH by simp
  qed
qed

lemma runs_below_outside:
  "s = [] \<or> \<not> P (hd s) \<Longrightarrow> runs_below P n k s = runs_below P n 0 s"
  by (cases s) auto

lemma runs_below_run:
  "\<forall>x\<in>set run. P x \<Longrightarrow> k + length run < n \<Longrightarrow>
     runs_below P n k (run @ s) = runs_below P n (k + length run) s"
  by (induction run arbitrary: k) auto

lemma drop_runs_outside:
  "s = [] \<or> \<not> P (hd s) \<Longrightarrow> drop_runs P n s = [] \<or> \<not> P (hd (drop_runs P n s))"
  by (cases s) auto

lemma dropWhile_outside: "dropWhile P s = [] \<or> \<not> P (hd (dropWhile P s))"
  by (metis hd_dropWhile)

lemma runs_below_drop_runs: "0 < n \<Longrightarrow> runs_below P n 0 (drop_runs P n s)"
proof (induction P n s rule: drop_runs.induct)
  case (1 P n)
  show ?case by simp
next
  case (2 P n c cs)
  show ?case
  proof (cases "P c")
    case False
    then show ?thesis using "2.IH"(2) "2.prems" by simp
  next
    case True
    let ?rest = "drop_runs P n (dropWhile P cs)"
    let ?run = "takeWhile P (c # cs)"
    have rest: "runs_below P n 0 ?rest" using "2.IH"(1) True "2.prems" by simp
    have out: "?rest = [] \<or> \<not> P (hd ?rest)"
      by (rule drop_runs_outside) (rule dropWhile_outside)
    show ?thesis
    proof (cases "n \<le> length ?run")
      case True
      then show ?thesis using \<open>P c\<close> rest by simp
    next
      case False
      have all: "\<forall>x\<in>set ?run. P x" by (auto dest: set_takeWhileD)
      have "runs_below P n 0 (?run @ ?rest) = runs_below P n (0 + length ?run) ?rest"
        using all False by (intro runs_below_run) simp_all
      also have "\<dots> = runs_below P n 0 ?rest"
        using out by (rule runs_below_outside)
      finally show ?thesis using False \<open>P c\<close> rest by simp
    qed
  qed
qed

lemma runs_below_re_sub:
  assumes "\<not> P d"
  shows "runs_below P n k s \<Longrightarrow> runs_below P n k (re_sub m [d] s)"
proof (induction s arbitrary: k rule: length_induct)
  case (1 s)
  show ?case
  proof (cases s)
    case Nil
    then show ?thesis by simp
  next
    case (Cons c cs)
    have copy: "runs_below P n k (c # re_sub m [d] cs)"
    proof (cases "P c")
      case True
      then have "Suc k < n" "runs_below P n (Suc k) cs" using "1.prems" Cons by simp_all
      then show ?thesis using True "1.IH" Cons by simp
    next
      case False
      then have "runs_below P n 0 cs" using "1.prems" Cons by simp
      then show ?thesis using False "1.IH" Cons by simp
    qed
    show ?thesis
    proof (cases "m (c # cs)")
      case None
      then show ?thesis using copy Cons by simp
    next
      case (Some j)
      show ?thesis
      proof (cases j)
        case 0
        then show ?thesis using copy Cons Some by simp
      next
        case (Suc i)
        have "runs_below P n 0 (drop (Suc i) s)" using "1.prems" by (rule runs_below_drop)
        then have "runs_below P n 0 (drop i cs)" using Cons by simp
        moreover have "length (drop i cs) < length s" using Cons by simp
        ultimately have "runs_below P n 0 (re_sub m [d] (drop i cs))" using "1.IH" by blast
        then show ?thesis using Cons Some Suc assms by simp
      qed
    qed
  qed
qed

lemma runs_below_replace:
  "\<not> P old \<Longrightarrow> \<not> P new \<Longrightarrow> runs_below P n k (replace old new s) = runs_below P n k s"
  by (induction s arbitrary: k) (auto simp: replace_def)

lemma runs_below_takeWhile:
  "runs_below P n k s \<Longrightarrow> takeWhile P s = [] \<or> length (takeWhile P s) + k < n"
proof (induction s arbitrary: k)
  case Nil
  then show ?case by simp
next
  case (Cons c cs)
  show ?case
  proof (cases "P c")
    case False
    then show ?thesis by simp
  next
    case True
    then have k: "Suc k < n" and r: "runs_below P n (Suc k) cs" using Cons.prems by simp_all
    from Cons.IH [OF r] k show ?thesis using True by auto
  qed
qed

lemma sub_decor_fixed: "runs_below is_decor 3 k s \<Longrightarrow> re_sub match_decor [] s = s"
proof (induction s arbitrary: k)
  case Nil
  then show ?case by simp
next
  case (Cons c cs)
  have "takeWhile is_decor (c # cs) = [] \<or> length (takeWhile is_decor (c # cs)) + k < 3"
    using Cons.prems by (rule runs_below_takeWhile)
  then have "length (takeWhile is_decor (c # cs)) < 3" by auto
  then have none: "match_decor (c # cs) = None" by (simp add: match_decor_def)
  have "\<exists>k'. runs_below is_decor 3 k' cs" using Cons.prems by (auto split: if_splits)
  then have "re_sub match_decor [] cs = cs" using Cons.IH by blast
  then show ?case using none by simp
qed

lemma sub_newlines_fixed: "NL \<notin> set s \<Longrightarrow> re_sub match_newlines [NL] s = s"
  by (induction s) (simp_all add: match_newlines_def)

lemma replace_fixed: "old \<notin> set s \<Longrightarrow> replace old new s = s"
  by (induction s) (auto simp: replace_def)

lemma clean_runs_below: "runs_below is_decor 3 0 (clean_and_prepare_text s)"
proof -
  have nl: "\<not> is_decor NL" and sp: "\<not> is_decor SP" by (simp_all add: is_decor_def)
  have "runs_below is_decor 3 0 (re_sub match_decor [] s)"
    by (simp add: sub_decor_runs runs_below_drop_runs)
  then have "runs_below is_decor 3 0 (re_sub match_newlines [NL] (re_sub match_decor [] s))"
    using nl by (intro runs_below_re_sub)
  then show ?thesis
    using nl sp by (simp add: clean_and_prepare_text_def runs_below_replace)
qed

lemma fst_emit: "fst (emit es x) = fst x"
  by (cases x) simp

lemma audio_loop_segments:
  "(\<forall>e. Inl e \<notin> set (chunk_results tts tld (map snd ics) k)) \<Longrightarrow>
   (\<forall>a. Inr (Some a) \<in> set (chunk_results tts tld (map snd ics) k) \<longrightarrow> seg_len lib a \<noteq> 0) \<Longrightarrow>
   fst (audio_loop lib tts tld n ics combined k) =
     Inr (foldl (seg_add lib) combined (segments (chunk_results tts tld (map snd ics) k)))"
proof (induction ics arbitrary: combined k)
  case Nil
  then show ?case by simp
next
  case (Cons ic ics)
  obtain i chunk where ic: "ic = (i, chunk)" by (cases ic)
  obtain r k1 tr where c: "convert_chunk_to_audio tts chunk tld k = (r, k1, tr)"
    by (cases "convert_chunk_to_audio tts chunk tld k")
  show ?case
  proof (cases r)
    case (Inl e)
    then have "Inl e \<in> set (chunk_results tts tld (map snd (ic # ics)) k)"
      using ic c by simp
    then show ?thesis using Cons.prems(1) by blast
  next
    case (Inr res)
    have res: "chunk_results tts tld (map snd (ic # ics)) k
                 = Inr res # chunk_results tts tld (map snd ics) k1"
      using ic c Inr by simp
    have p1: "\<forall>e. Inl e \<notin> set (chunk_results tts tld (map snd ics) k1)"
      using Cons.prems(1) unfolding res by simp
    have p2: "\<forall>a. Inr (Some a) \<in> set (chunk_results tts tld (map snd ics) k1)
                \<longrightarrow> seg_len lib a \<noteq> 0"
      using Cons.prems(2) unfolding res by simp
    note IH = Cons.IH [OF p1 p2]
    show ?thesis
    proof (cases res)
      case None
      then show ?thesis using ic c Inr res IH by (simp add: fst_emit)
    next
      case (Some a)
      then have "seg_len lib a \<noteq> 0" using Cons.prems(2) unfolding res by simp
      then show ?thesis using ic c Inr Some res IH by (simp add: fst_emit)
    qed
  qed
qed

lemma chunk_results_length:
  "(\<forall>e. Inl e \<notin> set (chunk_results tts tld chunks k)) \<Longrightarrow>
   length (chunk_results tts tld chunks k) = length chunks"
proof (induction chunks arbitrary: k)
  case Nil
  then show ?case by simp
next
  case (Cons chunk chunks)
  obtain r k1 tr where c: "convert_chunk_to_audio tts chunk tld k = (r, k1, tr)"
    by (cases "convert_chunk_to_audio tts chunk tld k")
  show ?case
  proof (cases r)
    case (Inl e)
    then have "Inl e \<in> set (chunk_results tts tld (chunk # chunks) k)" using c by simp
    then show ?thesis using Cons.prems by blast
  next
    case (Inr res)
    then have "chunk_results tts tld (chunk # chunks) k = Inr res # chunk_results tts tld chunks k1"
      using c by simp
    then show ?thesis using Cons by simp
  qed
qed

lemma map_snd_enumerate: "map snd (enumerate i xs) = xs"
  by (induction xs arbitrary: i) simp_all

lemma abc_chunks: "get_text_chunks (str ''a\<newline>b\<newline>c'') default_max_chunk_size
                     = Inr [str ''a'', str ''b'', str ''c'']"
proof -
  have "paragraphs (str ''a\<newline>b\<newline>c'') = [str ''a'', str ''b'', str ''c'']"
    by (simp add: paragraphs_def strip_def is_space_def str_def)
  then show ?thesis
    by (simp add: default_max_chunk_size_def get_text_chunks_pos chunks_of_def length_str)
qed

lemma abc_not_blank: "strip (str ''a\<newline>b\<newline>c'') \<noteq> []"
  by (simp add: strip_def is_space_def str_def)

lemma abc_results:
  "chunk_results second_chunk_rate_limited (str ''com'') [str ''a'', str ''b'', str ''c''] 0
     = [Inr (Some (replicate 24 0)), Inr None, Inr (Some (replicate 24 4))]"
  by (simp add: convert_chunk_to_audio_def upt_3 second_chunk_rate_limited_def)

section \<open>Retry and backoff\<close>

text \<open>
  The handler of \<open>_convert_chunk_to_audio\<close>, for exceptions of the class it names: were
  \<open>requests.exceptions.HTTPError\<close> with status 429 raised by every attempt of a chunk,
  there would be exactly three attempts, with sleeps of 5, 10 and 20 seconds after them,
  and \<open>None\<close> would be returned. This is what the code sets out to do.
\<close>

lemma handler_exhaustion:
  assumes "\<forall>j<3. tts (k + j) chunk tld = Raises (HTTPError 429)"
  shows "convert_chunk_to_audio tts chunk tld k =
           (Inr None, k + 3,
            [Synthesize chunk tld, RateLimitWarning 5 1 3, Sleep 5,
             Synthesize chunk tld, RateLimitWarning 10 2 3, Sleep 10,
             Synthesize chunk tld, RateLimitWarning 20 3 3, Sleep 20])"
proof -
  have a0: "tts k chunk tld = Raises (HTTPError 429)"
    using assms [rule_format, of 0] by simp
  have a1: "tts (Suc k) chunk tld = Raises (HTTPError 429)"
    using assms [rule_format, of 1] by simp
  have a2: "tts (Suc (Suc k)) chunk tld = Raises (HTTPError 429)"
    using assms [rule_format, of 2] by simp
  show ?thesis
    by (simp add: convert_chunk_to_audio_def upt_3 a0 a1 a2)
qed

text \<open>
  Likewise, were that exception raised by the first two attempts and the third to
  succeed, the segment of the third attempt would be returned after sleeps of 5 and 10
  seconds.
\<close>

lemma handler_twice_then_success:
  assumes "tts k chunk tld = Raises (HTTPError 429)"
    and "tts (k + 1) chunk tld = Raises (HTTPError 429)"
    and "tts (k + 2) chunk tld = Audio a"
  shows "convert_chunk_to_audio tts chunk tld k =
           (Inr (Some a), k + 3,
            [Synthesize chunk tld, RateLimitWarning 5 1 3, Sleep 5,
             Synthesize chunk tld, RateLimitWarning 10 2 3, Sleep 10,
             Synthesize chunk tld])"
  using assms by (simp add: convert_chunk_to_audio_def upt_3)

text \<open>
  C2, on the program as it runs. When the service answers every request with HTTP 429,
  the exception that leaves the \<open>try\<close> body is the library's \<open>gTTSError\<close>, which the
  handler does not catch: \<open>_convert_chunk_to_audio\<close> makes one attempt, not three, does
  not sleep, and raises instead of returning \<open>None\<close>. The claim describes the retry
  that the handler is written for; the code misses it.
\<close>

theorem real_rate_limit_is_not_retried:
  "convert_chunk_to_audio service_always_429 chunk tld k =
     (Inl OtherException, Suc k, [Synthesize chunk tld])"
  by (simp add: convert_chunk_to_audio_def upt_3 service_always_429_def gtts_def)

text \<open>
  C3, on the program as it runs. When the service answers the first two requests with
  HTTP 429 and would succeed on the third, \<open>_convert_chunk_to_audio\<close> never comes to
  the third: the first attempt raises the library's \<open>gTTSError\<close>, there is no sleep of
  5 or 10 seconds and no segment is returned.
\<close>

theorem real_rate_limit_twice_raises_at_once:
  "convert_chunk_to_audio service_twice_429 chunk tld 0 =
     (Inl OtherException, 1, [Synthesize chunk tld])"
  by (simp add: convert_chunk_to_audio_def upt_3 service_twice_429_def gtts_def)

text \<open>
  C4. When an attempt of a chunk is answered with an HTTP error whose status code is not
  429 (the attempts of the chunk before it, if any, having been rate-limited),
  \<open>_convert_chunk_to_audio\<close> raises that error: the failing attempt is the last event
  of the chunk, with no warning, no sleep and no attempt after it.
\<close>

theorem other_http_error_is_raised:
  assumes "j < 3"
    and "\<forall>i<j. tts (k + i) chunk tld = Raises (HTTPError 429)"
    and "tts (k + j) chunk tld = Raises (HTTPError status_code)"
    and "status_code \<noteq> 429"
  shows "convert_chunk_to_audio tts chunk tld k =
           (Inl (HTTPError status_code), k + j + 1,
            concat (map (\<lambda>i. [Synthesize chunk tld, RateLimitWarning (5 * 2 ^ i) (i + 1) 3,
                               Sleep (5 * 2 ^ i)]) [0..<j])
            @ [Synthesize chunk tld])"
proof -
  consider "j = 0" | "j = 1" | "j = 2" using assms(1) by linarith
  then show ?thesis
  proof cases
    case 1
    then show ?thesis using assms by (simp add: convert_chunk_to_audio_def upt_3)
  next
    case 2
    then show ?thesis using assms by (simp add: convert_chunk_to_audio_def upt_3)
  next
    case 3
    have a0: "tts k chunk tld = Raises (HTTPError 429)"
      using assms(2) [rule_format, of 0] 3 by simp
    have a1: "tts (Suc k) chunk tld = Raises (HTTPError 429)"
      using assms(2) [rule_format, of 1] 3 by simp
    have a2: "tts (Suc (Suc k)) chunk tld = Raises (HTTPError status_code)"
      using assms(3) 3 by simp
    have u: "[0..<2] = [0, 1::nat]" by (simp add: upt_rec)
    show ?thesis
      using 3 assms(4) by (simp add: convert_chunk_to_audio_def upt_3 a0 a1 a2 u)
  qed
qed

theorem other_http_error_is_raised_witness:
  "(1::nat) < 3 \<and>
   once_429_then_500 0 [104, 105] [99, 111, 109] = Raises (HTTPError 429) \<and>
   once_429_then_500
       (0 + 1) [104, 105] [99, 111, 109] = Raises (HTTPError 500) \<and>
   (500::int) \<noteq> 429 \<and>
   convert_chunk_to_audio
       once_429_then_500
       [104, 105] [99, 111, 109] 0 =
     (Inl (HTTPError 500), 2,
      [Synthesize [104, 105] [99, 111, 109], RateLimitWarning 5 1 3, Sleep 5,
       Synthesize [104, 105] [99, 111, 109]])"
  using other_http_error_is_raised
    [of 1 once_429_then_500
        0 "[104, 105]" "[99, 111, 109]" 500]
  by (simp add: once_429_then_500_def)

section \<open>The normalized text has no newline\<close>

text \<open>
  C8. The output of \<open>clean_and_prepare_text\<close> contains no newline: the last step
  replaces every newline that the second step left by a space. So splitting the output at
  newlines gives the output itself, and the chunk splitter finds at most one paragraph in
  it.
\<close>

theorem normalized_text_has_no_newline:
  "NL \<notin> set (clean_and_prepare_text s) \<and>
   split NL (clean_and_prepare_text s) = [clean_and_prepare_text s] \<and>
   length (paragraphs (clean_and_prepare_text s)) \<le> 1"
proof -
  have nl: "NL \<notin> set (clean_and_prepare_text s)"
    unfolding clean_and_prepare_text_def Let_def by (rule replace_removes) simp
  then show ?thesis
    by (simp add: split_no_sep paragraphs_single_line)
qed

section \<open>The chunk splitter: size bound\<close>

text \<open>
  C1. For every text and every maximum size \<open>M \<ge> 1\<close>, \<open>_get_text_chunks\<close> returns
  chunks, and each has length at most \<open>M\<close>. The chunks are, paragraph after paragraph,
  the paragraph itself when it is not longer than \<open>M\<close> and otherwise its slices; the
  slices of a paragraph concatenate to it, each but the last has length \<open>M\<close> exactly, and
  none is empty or longer than \<open>M\<close>. The default of \<open>M\<close> is 3000.
\<close>

theorem chunk_size_bound:
  assumes "1 \<le> M"
  shows "\<exists>chunks. get_text_chunks text M = Inr chunks \<and>
           (\<forall>c\<in>set chunks. int (length c) \<le> M) \<and>
           chunks = concat (map (\<lambda>para. if int (length para) \<le> M then [para]
                                         else range_slices 0 (nat M) para) (paragraphs text)) \<and>
           (\<forall>para. concat (range_slices 0 (nat M) para) = para \<and>
                   (\<forall>c\<in>set (butlast (range_slices 0 (nat M) para)). int (length c) = M) \<and>
                   (\<forall>c\<in>set (range_slices 0 (nat M) para). c \<noteq> [] \<and> int (length c) \<le> M)) \<and>
           default_max_chunk_size = 3000"
proof -
  let ?chunks = "concat (map (chunks_of (nat M)) (paragraphs text))"
  have pos: "0 < nat M" using assms by simp
  have 1: "get_text_chunks text M = Inr ?chunks"
    using assms by (rule get_text_chunks_pos)
  have 2: "\<forall>c\<in>set ?chunks. int (length c) \<le> M"
    using assms by (auto dest!: chunks_of_length_le)
  have eq: "chunks_of (nat M) = (\<lambda>para. if int (length para) \<le> M then [para]
                                         else range_slices 0 (nat M) para)"
    using assms by (auto simp: chunks_of_def fun_eq_iff)
  have 3: "concat (range_slices 0 (nat M) para) = para" for para
    using pos by (simp add: range_slices_concat)
  have 4: "\<forall>c\<in>set (butlast (range_slices 0 (nat M) para)). int (length c) = M" for para
    using assms by (auto dest!: range_slices_full)
  have 5: "\<forall>c\<in>set (range_slices 0 (nat M) para). c \<noteq> [] \<and> int (length c) \<le> M" for para
    using assms by (auto dest: range_slices_length_le range_slices_nonempty)
  have 6: "?chunks = concat (map (\<lambda>para. if int (length para) \<le> M then [para]
                                         else range_slices 0 (nat M) para) (paragraphs text))"
    by (simp only: eq)
  show ?thesis
    by (intro exI [of _ ?chunks] conjI allI 1 2 3 4 5 6 default_max_chunk_size_def)
qed

theorem chunk_size_bound_witness:
  "(1::int) \<le> 3 \<and>
   get_text_chunks (str ''ab\<newline>cdefg'') 3 = Inr [str ''ab'', str ''cde'', str ''fg''] \<and>
   length (str ''ab'') \<le> 3 \<and> length (str ''cde'') \<le> 3 \<and> length (str ''fg'') \<le> 3"
proof -
  have h: "(1::int) \<le> 3" by simp
  obtain chunks where c: "get_text_chunks (str ''ab\<newline>cdefg'') 3 = Inr chunks"
    and e: "chunks = concat (map (\<lambda>para. if int (length para) \<le> 3 then [para]
                                         else range_slices 0 (nat 3) para)
                         (paragraphs (str ''ab\<newline>cdefg'')))"
    using chunk_size_bound [OF h, of "str ''ab\<newline>cdefg''"]
    by (elim exE conjE) (rule that)
  have "chunks = [str ''ab'', str ''cde'', str ''fg'']"
    unfolding e paragraphs_example
    by (simp add: length_str range_slices_example)
  with c h show ?thesis
    by (simp add: length_str)
qed

section \<open>The chunk splitter: what is kept\<close>

text \<open>
  C9, as stated, at the text \<open>" a"\<close> with the default maximum: the only chunk is
  \<open>"a"\<close>, and no reinsertion of separators gives the text back, since its leading space
  is lost. The text is a normalized one: \<open>clean_and_prepare_text\<close> leaves it as it is.
\<close>

theorem chunks_lose_whitespace:
  "get_text_chunks (str '' a'') 3000 = Inr [str ''a''] \<and> join NL [str ''a''] \<noteq> str '' a'' \<and>
   clean_and_prepare_text (str '' a'') = str '' a''"
proof -
  have "get_text_chunks (str '' a'') 3000 = Inr [str ''a'']"
    by (simp add: get_text_chunks_pos paragraphs_leading_space chunks_of_def length_str)
  moreover have "join NL [str ''a''] \<noteq> str '' a''"
    by (simp add: str_def)
  moreover have "clean_and_prepare_text (str '' a'') = str '' a''"
    by (simp add: clean_and_prepare_text_def str_def match_decor_def is_decor_def
          match_newlines_def replace_def)
  ultimately show ?thesis by simp
qed

text \<open>
  C9, amended. For every text and every maximum size \<open>M \<ge> 1\<close>, the chunks are the
  concatenation of groups, one non-empty group for each paragraph in order, where the
  paragraphs are the lines of the text that are not blank, each without its leading and
  trailing whitespace; the chunks of a group concatenate to its paragraph exactly. So
  reinserting one newline between the groups gives the text with its blank lines removed
  and its lines stripped, and it gives the text itself when no line of the text is blank
  or has whitespace at an end.
\<close>

theorem chunks_lossless_modulo_strip:
  assumes "1 \<le> M"
  shows "\<exists>groups. get_text_chunks text M = Inr (concat groups) \<and>
           [] \<notin> set groups \<and>
           map concat groups = map strip (filter (\<lambda>p. strip p \<noteq> []) (split NL text)) \<and>
           ((\<forall>p\<in>set (split NL text). p \<noteq> [] \<and> strip p = p) \<longrightarrow>
              join NL (map concat groups) = text)"
proof -
  let ?groups = "map (chunks_of (nat M)) (paragraphs text)"
  have pos: "0 < nat M" using assms by simp
  have 1: "get_text_chunks text M = Inr (concat ?groups)"
    using assms by (rule get_text_chunks_pos)
  have 2: "[] \<notin> set ?groups"
  proof
    assume "[] \<in> set ?groups"
    then obtain p where "p \<in> set (paragraphs text)" and "chunks_of (nat M) p = []" by auto
    then show False using pos chunks_of_nonempty paragraphs_nonempty by blast
  qed
  have 3: "map concat ?groups = paragraphs text"
    using pos by (rule map_concat_chunks_of)
  have p3: "map concat ?groups = map strip (filter (\<lambda>p. strip p \<noteq> []) (split NL text))"
    using 3 unfolding paragraphs_def .
  have 4: "(\<forall>p\<in>set (split NL text). p \<noteq> [] \<and> strip p = p) \<longrightarrow>
             join NL (map concat ?groups) = text"
  proof
    assume "\<forall>p\<in>set (split NL text). p \<noteq> [] \<and> strip p = p"
    then have "paragraphs text = split NL text" by (rule paragraphs_of_trimmed_lines)
    with 3 have "join NL (map concat ?groups) = join NL (split NL text)" by simp
    then show "join NL (map concat ?groups) = text"
      by (simp only: join_split)
  qed
  show ?thesis
    by (intro exI [of _ ?groups] conjI 1 2 p3 4)
qed

theorem chunks_lossless_modulo_strip_witness:
  "(1::int) \<le> 3 \<and>
   (\<exists>groups. get_text_chunks (str ''ab\<newline>cdefg'') 3 = Inr (concat groups) \<and>
      map concat groups = [str ''ab'', str ''cdefg''] \<and>
      join NL (map concat groups) = str ''ab\<newline>cdefg'')"
proof -
  have lines: "split NL (str ''ab\<newline>cdefg'') = [str ''ab'', str ''cdefg'']"
    by (simp add: str_def)
  have trimmed: "\<forall>p\<in>set (split NL (str ''ab\<newline>cdefg'')). p \<noteq> [] \<and> strip p = p"
    unfolding lines by (simp add: str_def strip_def is_space_def)
  have paras: "map strip (filter (\<lambda>p. strip p \<noteq> []) (split NL (str ''ab\<newline>cdefg'')))
                 = [str ''ab'', str ''cdefg'']"
    using paragraphs_example by (simp only: paragraphs_def)
  show ?thesis
    using chunks_lossless_modulo_strip [of 3 "str ''ab\<newline>cdefg''"] trimmed
    unfolding paras by auto
qed

section \<open>A segment of zero duration\<close>

text \<open>
  C10. At any position of the loop of \<open>convert_text_to_mp3_chunked\<close> (the iterations
  before it have left \<open>combined_audio\<close> and made \<open>k\<close> attempts): when
  \<open>_convert_chunk_to_audio\<close> returns a segment whose \<open>len\<close> is zero, the loop goes on
  with \<open>combined_audio\<close> unchanged and emits the skip warning for the chunk, and no
  progress update; the segment is tested by its truth value, which is \<open>len \<noteq> 0\<close>.
\<close>

theorem zero_duration_segment_is_skipped:
  assumes "convert_chunk_to_audio tts chunk tld k = (Inr (Some chunk_audio), k1, tr)"
    and "seg_len lib chunk_audio = 0"
  shows "audio_loop lib tts tld n ((i, chunk) # rest) combined_audio k =
           emit (tr @ [SkipWarning (length chunk)])
             (audio_loop lib tts tld n rest combined_audio k1)"
  using assms by simp

theorem zero_duration_segment_is_skipped_witness:
  "convert_chunk_to_audio one_sample (str ''hi'') (str ''com'') 0 =
     (Inr (Some [7]), 1, [Synthesize (str ''hi'') (str ''com'')]) \<and>
   seg_len pcm_lib [7] = 0 \<and>
   audio_loop pcm_lib one_sample (str ''com'') 1 [(0, str ''hi'')] [] 0 =
     (Inr [], 1, [Synthesize (str ''hi'') (str ''com''), SkipWarning 2])"
proof -
  have a: "convert_chunk_to_audio one_sample (str ''hi'') (str ''com'') 0 =
             (Inr (Some [7]), 1, [Synthesize (str ''hi'') (str ''com'')])"
    by (simp add: convert_chunk_to_audio_def upt_3 one_sample_def)
  have b: "seg_len pcm_lib [7] = 0"
    by (simp add: pcm_lib_def)
  have "audio_loop pcm_lib one_sample (str ''com'') 1 [(0, str ''hi'')] [] 0 =
          emit ([Synthesize (str ''hi'') (str ''com'')] @ [SkipWarning (length (str ''hi''))])
            (audio_loop pcm_lib one_sample (str ''com'') 1 [] [] 1)"
    using zero_duration_segment_is_skipped [OF a b] .
  then show ?thesis using a b by (simp add: str_def)
qed

section \<open>The first step of the normalizer\<close>

text \<open>
  C7, as stated, at the text \<open>"a___b"\<close>: the first step of the program removes the
  three underscores, while the substitution of the specification (runs of dash, equals
  sign and asterisk only) leaves the text as it is.
\<close>

theorem first_step_removes_underscores:
  "re_sub match_decor [] (str ''a___b'') = str ''ab'' \<and>
   drop_runs is_spec_decor 3 (str ''a___b'') = str ''a___b''"
  by (simp add: str_def match_decor_def is_decor_def is_spec_decor_def)

text \<open>
  C7, amended. The first step of \<open>clean_and_prepare_text\<close> replaces every maximal run
  of three or more consecutive characters among dash, equals sign, underscore and
  asterisk (runs that mix them included) by the empty string and leaves every other
  character, and every shorter run, unchanged.
\<close>

theorem first_step_drops_runs:
  "re_sub match_decor [] text = drop_runs is_decor 3 text"
  unfolding match_decor_eq by (rule re_sub_runs) simp

section \<open>The normalizer is idempotent\<close>

text \<open>
  C6. Applying \<open>clean_and_prepare_text\<close> to its own output gives the output again: the
  output has no newline and no run of three decorative characters, so none of the three
  steps changes it.
\<close>

theorem normalizer_idempotent:
  "clean_and_prepare_text (clean_and_prepare_text s) = clean_and_prepare_text s"
proof -
  let ?t = "clean_and_prepare_text s"
  have nl: "NL \<notin> set ?t"
    unfolding clean_and_prepare_text_def Let_def by (rule replace_removes) simp
  have 1: "re_sub match_decor [] ?t = ?t"
    using clean_runs_below by (rule sub_decor_fixed)
  have 2: "re_sub match_newlines [NL] ?t = ?t"
    using nl by (rule sub_newlines_fixed)
  have 3: "replace NL SP ?t = ?t"
    using nl by (rule replace_fixed)
  have "clean_and_prepare_text ?t
          = replace NL SP (re_sub match_newlines [NL] (re_sub match_decor [] ?t))"
    by (simp add: clean_and_prepare_text_def)
  then show ?thesis by (simp only: 1 2 3)
qed

section \<open>The assembled audiobook\<close>

text \<open>
  C5, as stated, at the text of the three chunks \<open>a\<close>, \<open>b\<close>, \<open>c\<close> when the attempt
  for \<open>b\<close> is answered with HTTP 500: the synthesis of \<open>b\<close> has failed for good, and
  the failure ends the run. The error leaves \<open>convert_text_to_mp3_chunked\<close>, no
  audiobook is returned and \<open>c\<close> is never sent to the service.
\<close>

theorem http_error_aborts_the_run:
  "convert_text_to_mp3_chunked pcm_lib second_call_500 (str ''a\<newline>b\<newline>c'') (str ''com'') 0 =
     (Inl (HTTPError 500), 2,
      [ProgressStart, Synthesize (str ''a'') (str ''com''), Progress 1 3,
       Synthesize (str ''b'') (str ''com'')])"
  by (simp add: convert_text_to_mp3_chunked_def abc_not_blank abc_chunks
        convert_chunk_to_audio_def upt_3 second_call_500_def pcm_lib_def)

text \<open>
  C5, amended. For every list of chunks, when no call of \<open>_convert_chunk_to_audio\<close>
  raises (that is, no attempt ends in an error other than HTTP 429) and every segment
  that was synthesized has a duration other than zero: every chunk is processed, and the
  audio assembled by the loop of \<open>convert_text_to_mp3_chunked\<close> is the concatenation,
  in chunk order, of exactly the segments that were synthesized. A chunk for which
  \<open>None\<close> came back after three rate-limited attempts adds nothing and does not stop
  the chunks after it. For a text that is not blank the function returns the export of
  that concatenation, starting from the empty segment.
\<close>

theorem audiobook_is_concatenation:
  assumes "\<forall>e. Inl e \<notin> set (chunk_results tts tld chunks k)"
    and "\<forall>a. Inr (Some a) \<in> set (chunk_results tts tld chunks k) \<longrightarrow> seg_len lib a \<noteq> 0"
  shows "fst (audio_loop lib tts tld n (enumerate i chunks) combined k) =
           Inr (foldl (seg_add lib) combined (segments (chunk_results tts tld chunks k))) \<and>
         length (chunk_results tts tld chunks k) = length chunks \<and>
         (strip text \<noteq> [] \<and> get_text_chunks text default_max_chunk_size = Inr chunks \<longrightarrow>
            fst (convert_text_to_mp3_chunked lib tts text tld k) =
              Inr (Some (export_mp3 lib
                (foldl (seg_add lib) (seg_empty lib) (segments (chunk_results tts tld chunks k))))))"
proof -
  have loop: "fst (audio_loop lib tts tld n (enumerate i chunks) combined k) =
           Inr (foldl (seg_add lib) combined (segments (chunk_results tts tld chunks k)))"
    for n i combined
    using audio_loop_segments [of tts tld "enumerate i chunks" k lib n combined] assms
    by (simp add: map_snd_enumerate)
  have len: "length (chunk_results tts tld chunks k) = length chunks"
    using assms(1) by (rule chunk_results_length)
  have whole: "fst (convert_text_to_mp3_chunked lib tts text tld k) =
              Inr (Some (export_mp3 lib
                (foldl (seg_add lib) (seg_empty lib) (segments (chunk_results tts tld chunks k)))))"
    if "strip text \<noteq> []" "get_text_chunks text default_max_chunk_size = Inr chunks"
  proof -
    obtain r k1 tr where a: "audio_loop lib tts tld (length chunks) (enumerate 0 chunks)
                               (seg_empty lib) k = (r, k1, tr)"
      by (cases "audio_loop lib tts tld (length chunks) (enumerate 0 chunks) (seg_empty lib) k")
    have "r = Inr (foldl (seg_add lib) (seg_empty lib) (segments (chunk_results tts tld chunks k)))"
      using loop [of "length chunks" 0 "seg_empty lib"] a by simp
    then show ?thesis using that a by (simp add: convert_text_to_mp3_chunked_def)
  qed
  show ?thesis using loop len whole by blast
qed

theorem audiobook_is_concatenation_witness:
  "chunk_results second_chunk_rate_limited (str ''com'') [str ''a'', str ''b'', str ''c''] 0
     = [Inr (Some (replicate 24 0)), Inr None, Inr (Some (replicate 24 4))] \<and>
   seg_len pcm_lib (replicate 24 0) \<noteq> 0 \<and> seg_len pcm_lib (replicate 24 4) \<noteq> 0 \<and>
   strip (str ''a\<newline>b\<newline>c'') \<noteq> [] \<and>
   get_text_chunks (str ''a\<newline>b\<newline>c'') default_max_chunk_size = Inr [str ''a'', str ''b'', str ''c''] \<and>
   fst (convert_text_to_mp3_chunked pcm_lib second_chunk_rate_limited (str ''a\<newline>b\<newline>c'')
          (str ''com'') 0) = Inr (Some (replicate 24 0 @ replicate 24 4))"
proof -
  have h1: "\<forall>e. Inl e \<notin> set (chunk_results second_chunk_rate_limited (str ''com'')
                                 [str ''a'', str ''b'', str ''c''] 0)"
    unfolding abc_results by simp
  have h2: "\<forall>a. Inr (Some a) \<in> set (chunk_results second_chunk_rate_limited (str ''com'')
                                 [str ''a'', str ''b'', str ''c''] 0) \<longrightarrow> seg_len pcm_lib a \<noteq> 0"
    unfolding abc_results by (auto simp: pcm_lib_def)
  have "fst (convert_text_to_mp3_chunked pcm_lib second_chunk_rate_limited (str ''a\<newline>b\<newline>c'')
          (str ''com'') 0) =
        Inr (Some (export_mp3 pcm_lib (foldl (seg_add pcm_lib) (seg_empty pcm_lib)
          (segments (chunk_results second_chunk_rate_limited (str ''com'')
             [str ''a'', str ''b'', str ''c''] 0)))))"
    using audiobook_is_concatenation [OF h1 h2, of 0 0 "[]" "str ''a\<newline>b\<newline>c''"]
      abc_not_blank abc_chunks by blast
  then have "fst (convert_text_to_mp3_chunked pcm_lib second_chunk_rate_limited (str ''a\<newline>b\<newline>c'')
          (str ''com'') 0) = Inr (Some (replicate 24 0 @ replicate 24 4))"
    unfolding abc_results by (simp add: pcm_lib_def)
  then show ?thesis
    using abc_results abc_not_blank abc_chunks by (simp add: pcm_lib_def)
qed

end
